theory Spec2Isabelle
  imports Complex_Main
begin

section \<open>The indexer (indexer.py)\<close>

subsection \<open>Configuration\<close>

definition CHUNK_SIZE :: int where "CHUNK_SIZE = 600"
definition CHUNK_OVERLAP :: int where "CHUNK_OVERLAP = 200"
definition BATCH_SIZE :: nat where "BATCH_SIZE = 20"
definition GEMINI_BATCH_LIMIT :: nat where "GEMINI_BATCH_LIMIT = 100"

subsection \<open>Data\<close>

text \<open>
  A Python \<open>str\<close> is a \<open>string\<close>; a \<open>char\<close> stands for one code point, so that
  \<open>length\<close> is Python's \<open>len\<close>. A Python \<open>float\<close> is a \<open>real\<close>: the program never
  computes with the components of an embedding, it only stores and copies them.

  A chunk is the dictionary built in \<open>split_text\<close>. Its key \<open>"id"\<close> is the field
  \<open>chunk_id\<close> (the name of the local variable that holds it). The key \<open>"embedding"\<close>
  is absent until \<open>embed_content\<close> sets it: \<open>None\<close> is the absent key, and
  \<open>chunk.get("embedding")\<close> is falsy for \<open>None\<close> and for \<open>Some []\<close>.
  The chunk dictionaries of a run are distinct objects (each is created by its own
  iteration of the loop in \<open>split_text\<close>), so updating one in place is a functional
  update of that list element.
\<close>

record chunk =
  chunk_id :: string
  file_id :: string
  content :: string
  start_pos :: int
  end_pos :: int
  embedding :: "real list option"

text \<open>The answer of \<open>client.models.embed_content\<close>: it raises, or returns the list
  \<open>response.embeddings\<close>, given here by the \<open>values\<close> of each element.\<close>

datatype response = ApiRaises | ApiReturns "real list list"

text \<open>A JSON document as \<open>json.load\<close> returns it; an object is an association list.\<close>

datatype json =
    JNull
  | JBool bool
  | JInt int
  | JFloat real
  | JStr string
  | JArr "json list"
  | JObj "(string \<times> json) list"

text \<open>What is at the path \<open>embeddings.json\<close>: nothing, bytes that do not parse as
  JSON, or a JSON array of objects (the format the indexer writes), held as the
  parsed document: \<open>json.load\<close> gives back the document \<open>json.dump\<close> wrote.\<close>

datatype outfile = Missing | Corrupt | Content "(string \<times> json) list list"

text \<open>The attempt \<open>open(OUTPUT_JSON_FILE, 'w')\<close> followed by \<open>json.dump\<close>: it succeeds, or
  raises with a message and leaves something at the path.\<close>

datatype write_outcome = WriteOk | WriteRaises string outfile

text \<open>
  Everything outside the program, as parameters:
  \<^item> \<open>glob\<close>: \<open>glob.glob(pattern, recursive=True)\<close>;
  \<^item> \<open>open_read\<close>: opening and reading a file, \<open>None\<close> when that raises;
  \<^item> \<open>splitter\<close>: \<open>RecursiveCharacterTextSplitter(chunk_size=CHUNK_SIZE,
    chunk_overlap=CHUNK_OVERLAP).split_text\<close>, \<open>None\<close> when it raises;
  \<^item> \<open>relpath\<close>: \<open>os.path.relpath\<close>;
  \<^item> \<open>embed_api\<close>: the answer of the embedding service to its \<open>n\<close>-th call of the run,
    for the texts sent;
  \<^item> \<open>try_write\<close>: the outcome of writing a document over the current output file;
  \<^item> \<open>elapsed\<close>: \<open>round(time.time() - start_time, 2)\<close>;
  \<^item> \<open>api_key\<close>: \<open>os.getenv("GEMINI_API_KEY")\<close>.
  Console output and \<open>time.sleep\<close> are not modelled.
\<close>

record env =
  glob :: "string \<Rightarrow> string list"
  open_read :: "string \<Rightarrow> string option"
  splitter :: "string \<Rightarrow> string list option"
  relpath :: "string \<Rightarrow> string"
  embed_api :: "nat \<Rightarrow> string list \<Rightarrow> response"
  try_write :: "outfile \<Rightarrow> (string \<times> json) list list \<Rightarrow> write_outcome"
  elapsed :: real
  api_key :: "string option"

subsection \<open>Formatting an integer (\<open>str\<close>, as an f-string does)\<close>

definition digit_char :: "nat \<Rightarrow> char" where
  "digit_char d = ''0123456789'' ! d"

fun str_nat :: "nat \<Rightarrow> string" where
  "str_nat n = (if n < 10 then [digit_char n] else str_nat (n div 10) @ [digit_char (n mod 10)])"

declare str_nat.simps [simp del]

definition str_int :: "int \<Rightarrow> string" where
  "str_int i = (if i < 0 then CHR ''-'' # str_nat (nat (- i)) else str_nat (nat i))"

subsection \<open>\<open>read_text_file\<close>\<close>

definition read_text_file :: "env \<Rightarrow> string \<Rightarrow> string" where
  "read_text_file e file_path = (case open_read e file_path of Some s \<Rightarrow> s | None \<Rightarrow> '''')"

subsection \<open>\<open>split_text\<close>\<close>

definition replace_backslash :: "string \<Rightarrow> string" where
  "replace_backslash s = map (\<lambda>c. if c = CHR 0x5C then CHR ''/'' else c) s"

definition chunk_dict :: "string \<Rightarrow> nat \<Rightarrow> string \<Rightarrow> chunk" where
  "chunk_dict fid i chunk_text =
     (let start = (if i > 0 then int i * (CHUNK_SIZE - CHUNK_OVERLAP) else 0);
          stop = start + int (length chunk_text)
      in \<lparr> chunk_id = fid @ ''_'' @ str_int start @ ''-'' @ str_int stop,
           file_id = fid,
           content = chunk_text,
           start_pos = start,
           end_pos = stop,
           embedding = None \<rparr>)"

definition split_text :: "env \<Rightarrow> string \<Rightarrow> string \<Rightarrow> chunk list option" where
  "split_text e text file_path =
     (case splitter e text of
        None \<Rightarrow> None
      | Some chunks \<Rightarrow>
          (let fid = replace_backslash (relpath e file_path)
           in Some (map (\<lambda>(i, chunk_text). chunk_dict fid i chunk_text) (enumerate 0 chunks))))"

subsection \<open>\<open>embed_content\<close>\<close>

text \<open>
  The loop \<open>for j, embedding in enumerate(response.embeddings): batch[j]["embedding"] =
  embedding.values\<close>. \<open>batch[j]\<close> raises IndexError when the response holds more
  embeddings than the batch has chunks: \<open>Inl\<close> is the batch as the loop left it then,
  \<open>Inr\<close> the batch when the loop completes.
\<close>

fun assign_embeddings :: "chunk list \<Rightarrow> (nat \<times> real list) list \<Rightarrow> chunk list + chunk list" where
  "assign_embeddings batch [] = Inr batch"
| "assign_embeddings batch ((j, v) # rest) =
     (if j < length batch
      then assign_embeddings (batch[j := (batch ! j)\<lparr>embedding := Some v\<rparr>]) rest
      else Inl batch)"

text \<open>The handler \<open>except Exception\<close>: every chunk of the batch gets the embedding \<open>[]\<close>.\<close>

definition without_embeddings :: "chunk list \<Rightarrow> chunk list" where
  "without_embeddings batch = map (\<lambda>c. c\<lparr>embedding := Some []\<rparr>) batch"

text \<open>The body of the \<open>try\<close> statement for one sub-batch, with its handler: what is
  appended to \<open>all_chunks_with_embeddings\<close>.\<close>

definition embed_batch :: "response \<Rightarrow> chunk list \<Rightarrow> chunk list" where
  "embed_batch r batch =
     (case r of
        ApiRaises \<Rightarrow> without_embeddings batch
      | ApiReturns vs \<Rightarrow>
          (case assign_embeddings batch (enumerate 0 vs) of
             Inr b \<Rightarrow> b
           | Inl b \<Rightarrow> without_embeddings b))"

text \<open>The loop \<open>for i in range(0, len(chunks), GEMINI_BATCH_LIMIT)\<close>; \<open>n\<close> counts the
  calls made to the service so far.\<close>

function embed_loop :: "env \<Rightarrow> chunk list \<Rightarrow> nat \<Rightarrow> nat \<Rightarrow> chunk list \<Rightarrow> chunk list \<times> nat" where
  "embed_loop e chunks i n acc =
     (if i < length chunks then
        (let batch = take GEMINI_BATCH_LIMIT (drop i chunks);
             texts = map content batch
         in embed_loop e chunks (i + GEMINI_BATCH_LIMIT) (Suc n)
              (acc @ embed_batch (embed_api e n texts) batch))
      else (acc, n))"
  by pat_completeness auto
termination
  by (relation "measure (\<lambda>(e, chunks, i, n, acc). length chunks - i)")
     (auto simp: GEMINI_BATCH_LIMIT_def)

declare embed_loop.simps [simp del]

definition embed_content :: "env \<Rightarrow> nat \<Rightarrow> chunk list \<Rightarrow> chunk list \<times> nat" where
  "embed_content e n chunks = embed_loop e chunks 0 n []"

text \<open>The slice \<open>chunks[i:i + GEMINI_BATCH_LIMIT]\<close> of the iteration with
  \<open>i = b * GEMINI_BATCH_LIMIT\<close>.\<close>

definition sub_batch :: "chunk list \<Rightarrow> nat \<Rightarrow> chunk list" where
  "sub_batch chunks b = take GEMINI_BATCH_LIMIT (drop (b * GEMINI_BATCH_LIMIT) chunks)"

subsection \<open>\<open>index_markdown_files\<close>\<close>

record run_stats =
  files_processed :: int
  files_failed :: int
  chunks_created :: int
  chunks_indexed :: int
  processing_time :: real

text \<open>The messages, by the f-string that builds them and the values it interpolates.\<close>

datatype message =
    NoFilesFound "string list" string
  | WriteFailed string
  | Saved int int real
  | DryRunComplete int int real
  | NoValidEmbeddings int real

record result =
  status :: string
  message :: message
  stats :: "run_stats option"

definition with_dot :: "string \<Rightarrow> string" where
  "with_dot file_type = (if take 1 file_type = ''.'' then file_type else ''.'' @ file_type)"

definition find_files :: "env \<Rightarrow> string \<Rightarrow> string list \<Rightarrow> string list" where
  "find_files e directory file_types =
     concat (map (\<lambda>file_type. glob e (directory @ ''/**/*'' @ with_dot file_type)) file_types)"

text \<open>The loop \<open>for file_path in batch\<close>, on the statistics and \<open>all_chunks\<close>.\<close>

fun process_files :: "env \<Rightarrow> string list \<Rightarrow> run_stats \<Rightarrow> chunk list \<Rightarrow> run_stats \<times> chunk list" where
  "process_files e [] st all_chunks = (st, all_chunks)"
| "process_files e (file_path # rest) st all_chunks =
     (let text = read_text_file e file_path
      in if text = [] then
           process_files e rest (st\<lparr>files_failed := files_failed st + 1\<rparr>) all_chunks
         else
           (case split_text e text file_path of
              None \<Rightarrow> process_files e rest (st\<lparr>files_failed := files_failed st + 1\<rparr>) all_chunks
            | Some chunks \<Rightarrow>
                process_files e rest
                  (st\<lparr>files_processed := files_processed st + 1,
                      chunks_created := chunks_created st + int (length chunks)\<rparr>)
                  (all_chunks @ chunks)))"

text \<open>\<open>chunk.get("embedding")\<close> as a condition.\<close>

definition has_embedding :: "chunk \<Rightarrow> bool" where
  "has_embedding c = (case embedding c of None \<Rightarrow> False | Some v \<Rightarrow> v \<noteq> [])"

text \<open>The loop \<open>for i in range(0, len(all_found_files), BATCH_SIZE)\<close>.\<close>

function batch_loop ::
  "env \<Rightarrow> string list \<Rightarrow> nat \<Rightarrow> run_stats \<Rightarrow> chunk list \<Rightarrow> nat \<Rightarrow> run_stats \<times> chunk list \<times> nat" where
  "batch_loop e all_found_files i st all_processed_chunks n =
     (if i < length all_found_files then
        (let batch = take BATCH_SIZE (drop i all_found_files);
             (st', all_chunks) = process_files e batch st []
         in if all_chunks \<noteq> [] then
              (let (chunks_with_embeddings, n') = embed_content e n all_chunks;
                   valid_chunks = filter has_embedding chunks_with_embeddings
               in batch_loop e all_found_files (i + BATCH_SIZE) st'
                    (all_processed_chunks @ valid_chunks) n')
            else batch_loop e all_found_files (i + BATCH_SIZE) st' all_processed_chunks n)
      else (st, all_processed_chunks, n))"
  by pat_completeness auto
termination
  by (relation "measure (\<lambda>(e, fs, i, st, acc, n). length fs - i)")
     (auto simp: BATCH_SIZE_def)

declare batch_loop.simps [simp del]

text \<open>What \<open>json.dump\<close> writes for one chunk.\<close>

definition chunk_json :: "chunk \<Rightarrow> (string \<times> json) list" where
  "chunk_json c =
     [(''id'', JStr (chunk_id c)),
      (''file_id'', JStr (file_id c)),
      (''content'', JStr (content c)),
      (''start_pos'', JInt (start_pos c)),
      (''end_pos'', JInt (end_pos c))]
     @ (case embedding c of None \<Rightarrow> [] | Some v \<Rightarrow> [(''embedding'', JArr (map JFloat v))])"

definition initial_stats :: run_stats where
  "initial_stats = \<lparr> files_processed = 0, files_failed = 0, chunks_created = 0,
                     chunks_indexed = 0, processing_time = 0 \<rparr>"

text \<open>The run up to line 240: the final statistics and \<open>all_processed_chunks\<close>.\<close>

definition gather :: "env \<Rightarrow> string list \<Rightarrow> run_stats \<times> chunk list" where
  "gather e all_found_files =
     (let (st, all_processed_chunks, n) = batch_loop e all_found_files 0 initial_stats [] 0
      in (st\<lparr>processing_time := elapsed e,
             chunks_indexed := int (length all_processed_chunks)\<rparr>,
          all_processed_chunks))"

text \<open>\<open>index_markdown_files\<close>, from the output file as it is before the run to the result
  and the output file after it.\<close>

definition index_markdown_files ::
  "env \<Rightarrow> outfile \<Rightarrow> string \<Rightarrow> string list \<Rightarrow> bool \<Rightarrow> result \<times> outfile" where
  "index_markdown_files e out directory file_types dry_run =
     (let all_found_files = find_files e directory file_types
      in if all_found_files = [] then
           (\<lparr> status = ''error'', message = NoFilesFound file_types directory, stats = None \<rparr>, out)
         else
           (let (st, all_processed_chunks) = gather e all_found_files
            in if \<not> dry_run \<and> all_processed_chunks \<noteq> [] then
                 (case try_write e out (map chunk_json all_processed_chunks) of
                    WriteOk \<Rightarrow>
                      (\<lparr> status = ''success'',
                         message = Saved (files_processed st) (chunks_indexed st) (processing_time st),
                         stats = Some st \<rparr>,
                       Content (map chunk_json all_processed_chunks))
                  | WriteRaises err out' \<Rightarrow>
                      (\<lparr> status = ''error'', message = WriteFailed err, stats = Some st \<rparr>, out'))
               else if dry_run then
                 (\<lparr> status = ''success'',
                    message = DryRunComplete (chunks_indexed st) (files_processed st) (processing_time st),
                    stats = Some st \<rparr>, out)
               else
                 (\<lparr> status = ''success'',
                    message = NoValidEmbeddings (files_processed st) (processing_time st),
                    stats = Some st \<rparr>, out)))"

text \<open>\<open>main\<close> after argument parsing: the exit code of the process (0 when \<open>main\<close>
  returns) and the output file after it.\<close>

definition main :: "env \<Rightarrow> outfile \<Rightarrow> string \<Rightarrow> string list \<Rightarrow> bool \<Rightarrow> int \<times> outfile" where
  "main e out directory file_types dry_run =
     (if api_key e = None \<or> api_key e = Some [] then (1, out)
      else
        (let (res, out') = index_markdown_files e out directory file_types dry_run
         in if status res = ''success'' then (0, out') else (1, out')))"

section \<open>The viewer (viz_scatter.py)\<close>

subsection \<open>The table\<close>

text \<open>
  A cell of the DataFrame: a value of the JSON document, the \<open>NaN\<close> that pandas puts
  where a row lacks a column, and what the coercion of \<open>load_embeddings\<close> puts in the
  column \<open>embedding\<close>, a tuple of floats or \<open>None\<close>.
\<close>

datatype cell = Val json | NaN | Tuple "real list" | PyNone

text \<open>A row gives a cell for each column of the table, in the order of the columns.\<close>

record dataframe =
  columns :: "string list"
  rows :: "(string \<times> cell) list list"

definition first_occurrences :: "string list \<Rightarrow> string list" where
  "first_occurrences ks = rev (remdups (rev ks))"

text \<open>\<open>pd.DataFrame(data)\<close> for a list of dictionaries: the columns are the keys in the
  order they first appear, and a row has \<open>NaN\<close> where its dictionary lacks the key.\<close>

definition cell_of :: "(string \<times> json) list \<Rightarrow> string \<Rightarrow> cell" where
  "cell_of obj col = (case map_of obj col of Some v \<Rightarrow> Val v | None \<Rightarrow> NaN)"

definition DataFrame :: "(string \<times> json) list list \<Rightarrow> dataframe" where
  "DataFrame data =
     (let cols = first_occurrences (concat (map (map fst) data))
      in \<lparr> columns = cols,
           rows = map (\<lambda>obj. map (\<lambda>col. (col, cell_of obj col)) cols) data \<rparr>)"

text \<open>\<open>float(x)\<close> for an element of a JSON list, \<open>None\<close> when it raises. A float is
  itself and a bool is 1.0 or 0.0; \<open>None\<close>, a list and a dictionary raise TypeError;
  the rounding of an int (or its OverflowError) and the parsing of a str (or its
  ValueError) are the parameter \<open>conv\<close>.\<close>

definition py_float :: "(json \<Rightarrow> real option) \<Rightarrow> json \<Rightarrow> real option" where
  "py_float conv x =
     (case x of
        JFloat r \<Rightarrow> Some r
      | JBool b \<Rightarrow> Some (if b then 1 else 0)
      | JInt i \<Rightarrow> conv x
      | JStr s \<Rightarrow> conv x
      | _ \<Rightarrow> None)"

text \<open>\<open>isinstance(x, list)\<close> on a cell, with the list.\<close>

definition json_list :: "cell \<Rightarrow> json list option" where
  "json_list x = (case x of Val (JArr xs) \<Rightarrow> Some xs | _ \<Rightarrow> None)"

text \<open>\<open>lambda x: tuple(map(float, x)) if isinstance(x, list) else None\<close>, with \<open>None\<close>
  (of the option) when \<open>float\<close> raises.\<close>

definition coerce :: "(json \<Rightarrow> real option) \<Rightarrow> cell \<Rightarrow> cell option" where
  "coerce conv x =
     (case json_list x of
        Some xs \<Rightarrow> map_option Tuple (those (map (py_float conv) xs))
      | None \<Rightarrow> Some PyNone)"

text \<open>\<open>df['embedding'] = df['embedding'].apply(f)\<close> on one row that has the column.\<close>

definition apply_row :: "(cell \<Rightarrow> cell option) \<Rightarrow> (string \<times> cell) list \<Rightarrow> (string \<times> cell) list option" where
  "apply_row f row =
     those (map (\<lambda>(col, x). if col = ''embedding'' then map_option (Pair col) (f x) else Some (col, x)) row)"

text \<open>\<open>pd.isna\<close> on a cell.\<close>

definition isna :: "cell \<Rightarrow> bool" where
  "isna x = (case x of NaN \<Rightarrow> True | PyNone \<Rightarrow> True | Val JNull \<Rightarrow> True | _ \<Rightarrow> False)"

text \<open>\<open>df.dropna(subset=['embedding'], inplace=True)\<close>.\<close>

definition dropna :: "dataframe \<Rightarrow> dataframe" where
  "dropna df =
     df\<lparr>rows := filter (\<lambda>row. case map_of row ''embedding'' of Some x \<Rightarrow> \<not> isna x | None \<Rightarrow> True)
                        (rows df)\<rparr>"

text \<open>What the page shows through \<open>st.error\<close> and \<open>st.warning\<close>, by the place that emits it.\<close>

datatype notice =
    ErrorNoValidEmbeddings
  | WarningMissingColumns
  | ErrorFileNotFound
  | ErrorJSONDecode
  | ErrorUnexpected
  | WarningPerplexity int int int
  | ErrorTsneValue
  | ErrorTsneUnexpected

text \<open>\<open>df.empty\<close>.\<close>

definition empty_df :: "dataframe \<Rightarrow> bool" where
  "empty_df df = (rows df = [] \<or> columns df = [])"

subsection \<open>\<open>load_embeddings\<close>\<close>

definition load_embeddings :: "(json \<Rightarrow> real option) \<Rightarrow> outfile \<Rightarrow> notice list \<times> dataframe option" where
  "load_embeddings conv file =
     (case file of
        Missing \<Rightarrow> ([ErrorFileNotFound], None)
      | Corrupt \<Rightarrow> ([ErrorJSONDecode], None)
      | Content data \<Rightarrow>
          (let df = DataFrame data
           in if ''embedding'' \<notin> set (columns df) then ([ErrorUnexpected], None)
              else
                (case those (map (apply_row (coerce conv)) (rows df)) of
                   None \<Rightarrow> ([ErrorUnexpected], None)
                 | Some rs \<Rightarrow>
                     (let df = dropna (df\<lparr>rows := rs\<rparr>)
                      in if empty_df df then ([ErrorNoValidEmbeddings], None)
                         else if ''id'' \<notin> set (columns df) \<or> ''file_id'' \<notin> set (columns df)
                                 \<or> ''content'' \<notin> set (columns df)
                         then ([WarningMissingColumns], Some df)
                         else ([], Some df)))))"

subsection \<open>\<open>run_tsne\<close>\<close>





section \<open>Concrete runs\<close>

text \<open>A directory with one file of text, one empty file and one file that cannot be
  read; a splitter that gives two overlapping pieces; a service that answers its first
  call and fails afterwards.\<close>

definition demo_env :: env where
  "demo_env =
     \<lparr> glob = (\<lambda>pat. if pat = ''docs/**/*.md'' then [''docs/a.md'', ''docs/empty.md'', ''docs/gone.md''] else []),
       open_read = (\<lambda>p. if p = ''docs/a.md'' then Some ''alpha beta''
                          else if p = ''docs/empty.md'' then Some [] else None),
       splitter = (\<lambda>t. Some [take 6 t, drop 4 t]),
       relpath = (\<lambda>p. p),
       embed_api = (\<lambda>n texts. if n = 0 then ApiReturns (map (\<lambda>t. [1/2, 1/4]) texts) else ApiRaises),
       try_write = (\<lambda>old doc. WriteOk),
       elapsed = 3/2,
       api_key = Some ''key'' \<rparr>"

text \<open>The chunks of the readable file, and a service that returns one embedding more
  than it was sent texts.\<close>

definition demo_chunks :: "chunk list" where
  "demo_chunks =
     [\<lparr> chunk_id = ''docs/a.md_0-6'', file_id = ''docs/a.md'', content = ''alpha '',
         start_pos = 0, end_pos = 6, embedding = None \<rparr>,
      \<lparr> chunk_id = ''docs/a.md_400-406'', file_id = ''docs/a.md'', content = ''a beta'',
         start_pos = 400, end_pos = 406, embedding = None \<rparr>]"

definition surplus_env :: env where
  "surplus_env = demo_env\<lparr>embed_api := (\<lambda>n texts. ApiReturns (map (\<lambda>t. [1]) texts @ [[2]]))\<rparr>"

text \<open>The statistics and chunks that \<open>demo_env\<close> yields for the directory \<open>docs\<close>, and the
  same world with an output path that cannot be written.\<close>

definition demo_stats :: run_stats where
  "demo_stats = \<lparr> files_processed = 1, files_failed = 2, chunks_created = 2,
                  chunks_indexed = 2, processing_time = 3/2 \<rparr>"

definition demo_indexed :: "chunk list" where
  "demo_indexed = map (\<lambda>c. c\<lparr>embedding := Some [1/2, 1/4]\<rparr>) demo_chunks"

definition readonly_env :: env where
  "readonly_env = demo_env\<lparr>try_write := (\<lambda>old doc. WriteRaises ''Permission denied'' old)\<rparr>"





section \<open>Properties of the indexer\<close>

subsection \<open>Decimal numerals\<close>









subsection \<open>The chunker\<close>



subsection \<open>The embedder\<close>

lemma without_embeddings_update:
  "j < length batch \<Longrightarrow>
   without_embeddings (batch[j := (batch ! j)\<lparr>embedding := x\<rparr>]) = without_embeddings batch"
  by (simp add: without_embeddings_def map_update list_update_same_conv)

lemma assign_embeddings_fits:
  "j0 + length vs \<le> length batch \<Longrightarrow>
   \<exists>b. assign_embeddings batch (enumerate j0 vs) = Inr b \<and> length b = length batch \<and>
       (\<forall>j<length batch.
          b ! j = (if j0 \<le> j \<and> j < j0 + length vs
                   then (batch ! j)\<lparr>embedding := Some (vs ! (j - j0))\<rparr> else batch ! j))"
proof (induction vs arbitrary: batch j0)
  case Nil
  then show ?case by auto
next
  case (Cons v vs)
  let ?batch = "batch[j0 := (batch ! j0)\<lparr>embedding := Some v\<rparr>]"
  from Cons.prems have j0: "j0 < length batch" and fits: "Suc j0 + length vs \<le> length ?batch"
    by simp_all
  from Cons.IH[OF fits] obtain b where
    b: "assign_embeddings ?batch (enumerate (Suc j0) vs) = Inr b" "length b = length batch"
    and nth: "\<And>j. j < length batch \<Longrightarrow>
          b ! j = (if Suc j0 \<le> j \<and> j < Suc j0 + length vs
                   then (?batch ! j)\<lparr>embedding := Some (vs ! (j - Suc j0))\<rparr> else ?batch ! j)"
    by auto
  have "b ! j = (if j0 \<le> j \<and> j < j0 + length (v # vs)
                   then (batch ! j)\<lparr>embedding := Some ((v # vs) ! (j - j0))\<rparr> else batch ! j)"
    if "j < length batch" for j
  proof (cases "j = j0")
    case True
    then show ?thesis using nth[OF that] that by simp
  next
    case False
    then show ?thesis using nth[OF that] that
      by (auto simp: nth_Cons')
  qed
  with b j0 show ?case by simp
qed

lemma assign_embeddings_surplus:
  "length batch < j0 + length vs \<Longrightarrow> j0 \<le> length batch \<Longrightarrow>
   \<exists>b. assign_embeddings batch (enumerate j0 vs) = Inl b \<and>
       without_embeddings b = without_embeddings batch"
proof (induction vs arbitrary: batch j0)
  case Nil
  then show ?case by simp
next
  case (Cons v vs)
  show ?case
  proof (cases "j0 < length batch")
    case True
    let ?batch = "batch[j0 := (batch ! j0)\<lparr>embedding := Some v\<rparr>]"
    from Cons.prems True have "length ?batch < Suc j0 + length vs" "Suc j0 \<le> length ?batch"
      by simp_all
    from Cons.IH[OF this] obtain b where
      "assign_embeddings ?batch (enumerate (Suc j0) vs) = Inl b"
      "without_embeddings b = without_embeddings ?batch" by auto
    with True show ?thesis by (simp add: without_embeddings_update)
  next
    case False
    then show ?thesis by simp
  qed
qed

lemma embed_batch_raises: "embed_batch ApiRaises batch = without_embeddings batch"
  by (simp add: embed_batch_def)

lemma embed_batch_surplus:
  "length batch < length vs \<Longrightarrow> embed_batch (ApiReturns vs) batch = without_embeddings batch"
  using assign_embeddings_surplus[of batch 0 vs] by (auto simp: embed_batch_def)

lemma embed_batch_fits:
  assumes "length vs \<le> length batch"
  shows "length (embed_batch (ApiReturns vs) batch) = length batch"
    and "j < length batch \<Longrightarrow>
         embed_batch (ApiReturns vs) batch ! j =
           (if j < length vs then (batch ! j)\<lparr>embedding := Some (vs ! j)\<rparr> else batch ! j)"
  using assign_embeddings_fits[of 0 vs batch] assms by (auto simp: embed_batch_def)

lemma length_embed_batch: "length (embed_batch r batch) = length batch"
proof (cases r)
  case ApiRaises
  then show ?thesis by (simp add: embed_batch_raises without_embeddings_def)
next
  case (ApiReturns vs)
  then show ?thesis
    by (cases "length vs \<le> length batch")
       (simp_all add: embed_batch_fits(1) embed_batch_surplus without_embeddings_def)
qed

lemma embed_loop_inv:
  "\<exists>tail n'. embed_loop e chunks i n acc = (acc @ tail, n') \<and>
     length tail = length chunks - i \<and>
     (\<forall>k. i + k * 100 < length chunks \<longrightarrow>
        take 100 (drop (k * 100) tail) =
          embed_batch (embed_api e (n + k) (map content (take 100 (drop (i + k * 100) chunks))))
            (take 100 (drop (i + k * 100) chunks)))"
proof (induction e chunks i n acc rule: embed_loop.induct)
  case (1 e chunks i n acc)
  show ?case
  proof (cases "i < length chunks")
    case False
    then show ?thesis by (simp add: embed_loop.simps[of e chunks i n acc])
  next
    case True
    define batch where "batch = take 100 (drop i chunks)"
    define eb where "eb = embed_batch (embed_api e n (map content batch)) batch"
    have step: "embed_loop e chunks i n acc = embed_loop e chunks (i + 100) (Suc n) (acc @ eb)"
      using True by (simp add: embed_loop.simps[of e chunks i n acc] GEMINI_BATCH_LIMIT_def
          batch_def eb_def Let_def)
    from "1.IH"[OF True, of batch "map content batch"]
    obtain tail n' where
      run: "embed_loop e chunks (i + 100) (Suc n) (acc @ eb) = ((acc @ eb) @ tail, n')"
      and len: "length tail = length chunks - (i + 100)"
      and sub: "\<And>k. i + 100 + k * 100 < length chunks \<Longrightarrow>
        take 100 (drop (k * 100) tail) =
          embed_batch (embed_api e (Suc n + k) (map content (take 100 (drop (i + 100 + k * 100) chunks))))
            (take 100 (drop (i + 100 + k * 100) chunks))"
      unfolding batch_def eb_def GEMINI_BATCH_LIMIT_def by auto
    have leb: "length eb = min 100 (length chunks - i)"
      by (simp add: eb_def length_embed_batch batch_def)
    have "take 100 (drop (k * 100) (eb @ tail)) =
          embed_batch (embed_api e (n + k) (map content (take 100 (drop (i + k * 100) chunks))))
            (take 100 (drop (i + k * 100) chunks))"
      if k: "i + k * 100 < length chunks" for k
    proof (cases k)
      case 0
      have "take 100 (eb @ tail) = eb"
      proof (cases "length chunks - i < 100")
        case True
        with len have "tail = []" by simp
        with leb show ?thesis by simp
      next
        case False
        with leb have "length eb = 100" by simp
        then show ?thesis by simp
      qed
      with 0 show ?thesis by (simp add: eb_def batch_def)
    next
      case (Suc k')
      with k have l100: "length eb = 100" using leb by simp
      have d: "drop (Suc k' * 100) (eb @ tail) = drop (k' * 100) tail" using l100 by simp
      have a: "i + 100 + k' * 100 = i + Suc k' * 100" by simp
      have b: "Suc n + k' = n + Suc k'" by simp
      have "i + 100 + k' * 100 < length chunks" using k Suc by simp
      from sub[OF this] show ?thesis unfolding Suc d a b .
    qed
    moreover have "length (eb @ tail) = length chunks - i" using leb len True by simp
    ultimately show ?thesis using step run by (intro exI[of _ "eb @ tail"] exI[of _ n']) simp
  qed
qed

lemma nth_without_embeddings:
  "j < length batch \<Longrightarrow> without_embeddings batch ! j = (batch ! j)\<lparr>embedding := Some []\<rparr>"
  by (simp add: without_embeddings_def)

lemma embed_content_slices:
  assumes "b * 100 < length chunks"
  shows "length (fst (embed_content e n chunks)) = length chunks"
    and "take 100 (drop (b * 100) (fst (embed_content e n chunks))) =
           embed_batch (embed_api e (n + b) (map content (sub_batch chunks b))) (sub_batch chunks b)"
  using embed_loop_inv[of e chunks 0 n "[]"] assms
  by (auto simp: embed_content_def sub_batch_def GEMINI_BATCH_LIMIT_def)

text \<open>
  C2 (amended). \<open>embed_content\<close> returns as many chunks as it is given, in order, and
  raises nothing. With the chunks cut into consecutive sub-batches of
  \<open>GEMINI_BATCH_LIMIT\<close>, the chunk at position \<open>j\<close> of sub-batch \<open>b\<close> depends on the
  answer to the call for that sub-batch only (call \<open>n + b\<close>, sent the contents of the
  sub-batch in order): when the call raises, or returns more embeddings than the
  sub-batch has chunks (the assignment loop then raises IndexError inside the same
  \<open>try\<close>), the chunk gets the embedding \<open>[]\<close>; otherwise it gets the \<open>j\<close>-th returned
  embedding, or stays as it was when fewer than \<open>j + 1\<close> embeddings were returned.
\<close>

theorem embed_content_sub_batches:
  assumes "j < GEMINI_BATCH_LIMIT" and "b * GEMINI_BATCH_LIMIT + j < length chunks"
  shows "length (fst (embed_content e n chunks)) = length chunks \<and>
         fst (embed_content e n chunks) ! (b * GEMINI_BATCH_LIMIT + j) =
           (case embed_api e (n + b) (map content (sub_batch chunks b)) of
              ApiRaises \<Rightarrow> (chunks ! (b * GEMINI_BATCH_LIMIT + j))\<lparr>embedding := Some []\<rparr>
            | ApiReturns vs \<Rightarrow>
                if length (sub_batch chunks b) < length vs
                then (chunks ! (b * GEMINI_BATCH_LIMIT + j))\<lparr>embedding := Some []\<rparr>
                else if j < length vs
                then (chunks ! (b * GEMINI_BATCH_LIMIT + j))\<lparr>embedding := Some (vs ! j)\<rparr>
                else chunks ! (b * GEMINI_BATCH_LIMIT + j))"
proof -
  let ?out = "fst (embed_content e n chunks)"
  let ?batch = "sub_batch chunks b"
  let ?r = "embed_api e (n + b) (map content ?batch)"
  from assms have j: "j < 100" and bj: "b * 100 + j < length chunks" and b: "b * 100 < length chunks"
    by (simp_all add: GEMINI_BATCH_LIMIT_def)
  have len: "length ?out = length chunks" by (rule embed_content_slices(1)[OF b])
  have jb: "j < length ?batch" and nb: "?batch ! j = chunks ! (b * 100 + j)"
    using j bj by (simp_all add: sub_batch_def GEMINI_BATCH_LIMIT_def)
  have "?out ! (b * 100 + j) = take 100 (drop (b * 100) ?out) ! j"
    using j bj len by simp
  also have "\<dots> = embed_batch ?r ?batch ! j"
    by (simp only: embed_content_slices(2)[OF b])
  finally have out: "?out ! (b * 100 + j) = embed_batch ?r ?batch ! j" .
  have "embed_batch ?r ?batch ! j =
           (case ?r of
              ApiRaises \<Rightarrow> (chunks ! (b * 100 + j))\<lparr>embedding := Some []\<rparr>
            | ApiReturns vs \<Rightarrow>
                if length ?batch < length vs then (chunks ! (b * 100 + j))\<lparr>embedding := Some []\<rparr>
                else if j < length vs then (chunks ! (b * 100 + j))\<lparr>embedding := Some (vs ! j)\<rparr>
                else chunks ! (b * 100 + j))"
  proof (cases ?r)
    case ApiRaises
    then show ?thesis using jb nb by (simp add: embed_batch_raises nth_without_embeddings)
  next
    case (ApiReturns vs)
    show ?thesis
    proof (cases "length ?batch < length vs")
      case True
      then show ?thesis using jb nb ApiReturns
        by (simp add: embed_batch_surplus nth_without_embeddings)
    next
      case False
      then have "length vs \<le> length ?batch" by simp
      from embed_batch_fits(2)[OF this jb] False ApiReturns nb show ?thesis by simp
    qed
  qed
  with out have "?out ! (b * 100 + j) =
           (case ?r of
              ApiRaises \<Rightarrow> (chunks ! (b * 100 + j))\<lparr>embedding := Some []\<rparr>
            | ApiReturns vs \<Rightarrow>
                if length ?batch < length vs then (chunks ! (b * 100 + j))\<lparr>embedding := Some []\<rparr>
                else if j < length vs then (chunks ! (b * 100 + j))\<lparr>embedding := Some (vs ! j)\<rparr>
                else chunks ! (b * 100 + j))"
    by (rule trans)
  with len show ?thesis unfolding GEMINI_BATCH_LIMIT_def by (rule conjI)
qed

theorem embed_content_sub_batches_witness:
  "(1::nat) < GEMINI_BATCH_LIMIT \<and> 0 * GEMINI_BATCH_LIMIT + 1 < length demo_chunks \<and>
   embed_api demo_env 0 (map content (sub_batch demo_chunks 0)) = ApiReturns [[1/2, 1/4], [1/2, 1/4]] \<and>
   embed_api demo_env 1 (map content (sub_batch demo_chunks 0)) = ApiRaises \<and>
   fst (embed_content demo_env 0 demo_chunks) ! 1 = (demo_chunks ! 1)\<lparr>embedding := Some [1/2, 1/4]\<rparr> \<and>
   fst (embed_content demo_env 1 demo_chunks) ! 1 = (demo_chunks ! 1)\<lparr>embedding := Some []\<rparr>"
proof -
  have h: "(1::nat) < GEMINI_BATCH_LIMIT" "0 * GEMINI_BATCH_LIMIT + 1 < length demo_chunks"
    by (simp_all add: GEMINI_BATCH_LIMIT_def demo_chunks_def)
  have r: "embed_api demo_env 0 (map content (sub_batch demo_chunks 0)) = ApiReturns [[1/2, 1/4], [1/2, 1/4]]"
    "embed_api demo_env 1 (map content (sub_batch demo_chunks 0)) = ApiRaises"
    "length (sub_batch demo_chunks 0) = 2"
    by (simp_all add: demo_env_def sub_batch_def demo_chunks_def GEMINI_BATCH_LIMIT_def)
  from embed_content_sub_batches[OF h, of demo_env 0] embed_content_sub_batches[OF h, of demo_env 1] h r
  show ?thesis by simp
qed

text \<open>C2 as stated fails: the call for the only sub-batch returns (two embeddings for one
  chunk) and the chunk does not get the first of them.\<close>

theorem embed_content_surplus_counterexample:
  "embed_api surplus_env 0 (map content (take 1 demo_chunks)) = ApiReturns [[1], [2]] \<and>
   embedding (fst (embed_content surplus_env 0 (take 1 demo_chunks)) ! 0) \<noteq> Some ([[1], [2]] ! 0)"
  by (simp add: embed_content_def embed_loop.simps GEMINI_BATCH_LIMIT_def demo_chunks_def demo_env_def
      surplus_env_def embed_batch_def without_embeddings_def)

subsection \<open>The file loop\<close>

lemma process_files_stats_any_acc:
  "fst (process_files e fs st acc) = fst (process_files e fs st acc')"
proof (induction fs arbitrary: st acc acc')
  case Nil
  then show ?case by simp
next
  case (Cons p fs)
  show ?case by (auto simp: Let_def split: option.splits intro: Cons.IH)
qed

lemma process_files_stats_acc:
  "fst (process_files e fs st acc) = fst (process_files e fs st [])"
  by (rule process_files_stats_any_acc)

lemma process_files_append:
  "fst (process_files e (xs @ ys) st acc) = fst (process_files e ys (fst (process_files e xs st acc)) [])"
proof (induction xs arbitrary: st acc)
  case Nil
  show ?case using process_files_stats_acc[of e ys st acc] by simp
next
  case (Cons p xs)
  show ?case by (simp add: Let_def Cons.IH split: option.splits)
qed

lemma process_files_counts:
  "files_failed (fst (process_files e fs st acc)) =
     files_failed st
       + int (length (filter (\<lambda>p. read_text_file e p = [] \<or> split_text e (read_text_file e p) p = None) fs))"
  "files_processed (fst (process_files e fs st acc)) =
     files_processed st
       + int (length (filter (\<lambda>p. read_text_file e p \<noteq> [] \<and> split_text e (read_text_file e p) p \<noteq> None) fs))"
proof (induction fs arbitrary: st acc)
  case Nil
  { case 1 show ?case by simp }
  { case 2 show ?case by simp }
next
  case (Cons p fs)
  { case 1 show ?case by (auto simp: Let_def Cons.IH(1) split: option.splits) }
  { case 2 show ?case by (auto simp: Let_def Cons.IH(2) split: option.splits) }
qed

lemma batch_loop_stop:
  "\<not> i < length fs \<Longrightarrow> batch_loop e fs i st acc n = (st, acc, n)"
  by (subst batch_loop.simps) simp

lemma batch_loop_step:
  assumes "i < length fs"
    and "process_files e (take BATCH_SIZE (drop i fs)) st [] = (st', all_chunks)"
  shows "batch_loop e fs i st acc n =
           batch_loop e fs (i + BATCH_SIZE) st'
             (if all_chunks \<noteq> [] then acc @ filter has_embedding (fst (embed_content e n all_chunks)) else acc)
             (if all_chunks \<noteq> [] then snd (embed_content e n all_chunks) else n)"
  using assms by (subst batch_loop.simps) (simp add: Let_def split: prod.splits)

lemma batch_loop_stats:
  "fst (batch_loop e fs i st acc n) = fst (process_files e (drop i fs) st [])"
proof (induction "length fs - i" arbitrary: i st acc n rule: less_induct)
  case less
  show ?case
  proof (cases "i < length fs")
    case False
    then show ?thesis by (simp add: batch_loop_stop)
  next
    case True
    define batch where "batch = take BATCH_SIZE (drop i fs)"
    obtain st' all_chunks where pf: "process_files e batch st [] = (st', all_chunks)"
      by (cases "process_files e batch st []")
    have dec: "length fs - (i + BATCH_SIZE) < length fs - i"
      using True by (simp add: BATCH_SIZE_def)
    have "drop i fs = batch @ drop (i + BATCH_SIZE) fs"
      unfolding batch_def using append_take_drop_id[of BATCH_SIZE "drop i fs"] by (simp add: add.commute)
    then have rhs: "fst (process_files e (drop i fs) st []) =
        fst (process_files e (drop (i + BATCH_SIZE) fs) st' [])"
      using process_files_append[of e batch "drop (i + BATCH_SIZE) fs" st "[]"] pf by simp
    show ?thesis
      unfolding batch_loop_step[OF True pf[unfolded batch_def]] rhs by (rule less.hyps[OF dec])
  qed
qed

lemma batch_loop_valid:
  "list_all has_embedding acc \<Longrightarrow> list_all has_embedding (fst (snd (batch_loop e fs i st acc n)))"
proof (induction "length fs - i" arbitrary: i st acc n rule: less_induct)
  case less
  show ?case
  proof (cases "i < length fs")
    case False
    then show ?thesis using less.prems by (simp add: batch_loop_stop)
  next
    case True
    obtain st' all_chunks where pf: "process_files e (take BATCH_SIZE (drop i fs)) st [] = (st', all_chunks)"
      by (cases "process_files e (take BATCH_SIZE (drop i fs)) st []")
    have dec: "length fs - (i + BATCH_SIZE) < length fs - i"
      using True by (simp add: BATCH_SIZE_def)
    have ext: "list_all has_embedding
        (if all_chunks \<noteq> [] then acc @ filter has_embedding (fst (embed_content e n all_chunks)) else acc)"
      using less.prems by (auto simp: list_all_iff)
    show ?thesis
      unfolding batch_loop_step[OF True pf] by (rule less.hyps[OF dec ext])
  qed
qed

subsection \<open>Environments that agree\<close>

lemma process_files_cong:
  assumes "\<And>p. read_text_file e' p = read_text_file e p"
    and "splitter e' = splitter e" and "relpath e' = relpath e"
  shows "process_files e' fs st acc = process_files e fs st acc"
proof (induction fs arbitrary: st acc)
  case Nil
  show ?case by simp
next
  case (Cons p fs)
  have "split_text e' x y = split_text e x y" for x y
    unfolding split_text_def assms(2,3) by (rule refl)
  then show ?case by (simp add: Let_def assms(1) Cons.IH split: option.splits)
qed

lemma embed_loop_cong:
  assumes "embed_api e' = embed_api e"
  shows "embed_loop e' chunks i n acc = embed_loop e chunks i n acc"
proof (induction "length chunks - i" arbitrary: i n acc rule: less_induct)
  case less
  show ?case
  proof (cases "i < length chunks")
    case False
    then show ?thesis by (simp add: embed_loop.simps[of e'] embed_loop.simps[of e])
  next
    case True
    have dec: "length chunks - (i + GEMINI_BATCH_LIMIT) < length chunks - i"
      using True by (simp add: GEMINI_BATCH_LIMIT_def)
    show ?thesis
      apply (subst embed_loop.simps[of e'])
      apply (subst embed_loop.simps[of e])
      using True apply (simp add: Let_def assms less.hyps[OF dec])
      done
  qed
qed

lemma batch_loop_cong:
  assumes "\<And>p. read_text_file e' p = read_text_file e p"
    and "splitter e' = splitter e" and "relpath e' = relpath e" and "embed_api e' = embed_api e"
  shows "batch_loop e' fs i st acc n = batch_loop e fs i st acc n"
proof (induction "length fs - i" arbitrary: i st acc n rule: less_induct)
  case less
  show ?case
  proof (cases "i < length fs")
    case False
    then show ?thesis by (simp add: batch_loop_stop)
  next
    case True
    obtain st' all_chunks where pf: "process_files e (take BATCH_SIZE (drop i fs)) st [] = (st', all_chunks)"
      by (cases "process_files e (take BATCH_SIZE (drop i fs)) st []")
    then have pf': "process_files e' (take BATCH_SIZE (drop i fs)) st [] = (st', all_chunks)"
      by (simp add: process_files_cong[OF assms(1-3)])
    have dec: "length fs - (i + BATCH_SIZE) < length fs - i"
      using True by (simp add: BATCH_SIZE_def)
    have ec: "embed_content e' m cs = embed_content e m cs" for m cs
      by (simp add: embed_content_def embed_loop_cong[OF assms(4)])
    show ?thesis
      unfolding batch_loop_step[OF True pf] batch_loop_step[OF True pf'] ec by (rule less.hyps[OF dec])
  qed
qed

lemma index_markdown_files_cong:
  assumes "\<And>p. read_text_file e' p = read_text_file e p"
    and "splitter e' = splitter e" and "relpath e' = relpath e" and "embed_api e' = embed_api e"
    and "glob e' = glob e" and "try_write e' = try_write e" and "elapsed e' = elapsed e"
  shows "index_markdown_files e' out directory file_types dry_run =
         index_markdown_files e out directory file_types dry_run"
proof -
  have ff: "find_files e' directory file_types = find_files e directory file_types"
    by (simp add: find_files_def assms(5))
  have g: "gather e' fs = gather e fs" for fs
    by (simp add: gather_def batch_loop_cong[OF assms(1-4)] assms(7))
  show ?thesis unfolding index_markdown_files_def ff g assms(6) by (rule refl)
qed

subsection \<open>The run\<close>

lemma gather_parts:
  "gather e fs = (st, cs) \<Longrightarrow>
     cs = fst (snd (batch_loop e fs 0 initial_stats [] 0)) \<and>
     st = (fst (batch_loop e fs 0 initial_stats [] 0))
            \<lparr>processing_time := elapsed e, chunks_indexed := int (length cs)\<rparr>"
  by (auto simp: gather_def split: prod.splits)

lemma gather_no_files: "snd (gather e []) = []"
  by (simp add: gather_def batch_loop_stop)

lemma gather_fst:
  "fst (gather e fs) =
     (fst (batch_loop e fs 0 initial_stats [] 0))
        \<lparr>processing_time := elapsed e,
         chunks_indexed := int (length (fst (snd (batch_loop e fs 0 initial_stats [] 0))))\<rparr>"
  by (simp add: gather_def split: prod.splits)

lemma gather_counts:
  "files_failed (fst (gather e fs)) =
     int (length (filter (\<lambda>p. read_text_file e p = [] \<or> split_text e (read_text_file e p) p = None) fs))"
  "files_processed (fst (gather e fs)) =
     int (length (filter (\<lambda>p. read_text_file e p \<noteq> [] \<and> split_text e (read_text_file e p) p \<noteq> None) fs))"
  by (simp_all add: gather_fst batch_loop_stats process_files_counts initial_stats_def)

lemma find_files_demo:
  "find_files demo_env ''docs'' [''md''] = [''docs/a.md'', ''docs/empty.md'', ''docs/gone.md'']"
  "find_files demo_env ''nowhere'' [''md''] = []"
  "find_files readonly_env ''docs'' [''md''] = [''docs/a.md'', ''docs/empty.md'', ''docs/gone.md'']"
  by (simp_all add: find_files_def with_dot_def demo_env_def readonly_env_def)

lemma gather_demo:
  "gather demo_env [''docs/a.md'', ''docs/empty.md'', ''docs/gone.md''] = (demo_stats, demo_indexed)"
  by (simp add: gather_def batch_loop.simps BATCH_SIZE_def initial_stats_def demo_env_def read_text_file_def
     split_text_def Let_def chunk_dict_def replace_backslash_def CHUNK_SIZE_def CHUNK_OVERLAP_def
     str_int_def str_nat.simps digit_char_def embed_content_def embed_loop.simps GEMINI_BATCH_LIMIT_def
     embed_batch_def has_embedding_def demo_chunks_def demo_stats_def demo_indexed_def)

lemma gather_readonly: "gather readonly_env fs = gather demo_env fs"
  by (simp add: gather_def readonly_env_def
      batch_loop_cong[of "demo_env\<lparr>try_write := f\<rparr>" demo_env for f] read_text_file_def)

text \<open>
  C1. \<open>all_processed_chunks\<close> is the list the run writes to the output file, and
  \<open>st\<close> the statistics it reports. Every chunk of the list has an embedding that is not
  empty, \<open>chunks_indexed\<close> is the length of the list, and \<open>files_processed\<close> is the number
  of files that were read and split, whatever the embedding service answers.
\<close>

theorem persisted_chunks_have_embeddings:
  assumes "gather e (find_files e directory file_types) = (st, all_processed_chunks)"
  shows "(\<forall>c\<in>set all_processed_chunks. \<exists>v. embedding c = Some v \<and> v \<noteq> []) \<and>
         chunks_indexed st = int (length all_processed_chunks) \<and>
         files_processed st =
           int (length (filter (\<lambda>p. read_text_file e p \<noteq> [] \<and> split_text e (read_text_file e p) p \<noteq> None)
                          (find_files e directory file_types))) \<and>
         files_processed (fst (gather (e\<lparr>embed_api := service\<rparr>) (find_files e directory file_types)))
           = files_processed st \<and>
         (find_files e directory file_types \<noteq> [] \<longrightarrow>
            stats (fst (index_markdown_files e out directory file_types dry_run)) = Some st \<and>
            (snd (index_markdown_files e out directory file_types dry_run) = out \<or>
             snd (index_markdown_files e out directory file_types dry_run)
               = Content (map chunk_json all_processed_chunks) \<or>
             (\<exists>err. try_write e out (map chunk_json all_processed_chunks)
                = WriteRaises err (snd (index_markdown_files e out directory file_types dry_run)))))"
proof -
  let ?fs = "find_files e directory file_types"
  from gather_parts[OF assms]
  have cs: "all_processed_chunks = fst (snd (batch_loop e ?fs 0 initial_stats [] 0))"
    and st: "st = (fst (batch_loop e ?fs 0 initial_stats [] 0))
            \<lparr>processing_time := elapsed e, chunks_indexed := int (length all_processed_chunks)\<rparr>"
    by simp_all
  have "list_all has_embedding all_processed_chunks"
    unfolding cs by (rule batch_loop_valid) simp
  then have a: "\<forall>c\<in>set all_processed_chunks. \<exists>v. embedding c = Some v \<and> v \<noteq> []"
    by (auto simp: list_all_iff has_embedding_def split: option.splits)
  have b: "chunks_indexed st = int (length all_processed_chunks)"
    by (subst st) simp
  have fp: "files_processed (fst (gather e' ?fs)) =
           int (length (filter (\<lambda>p. read_text_file e' p \<noteq> [] \<and> split_text e' (read_text_file e' p) p \<noteq> None) ?fs))"
    for e' by (rule gather_counts(2))
  have c: "files_processed st =
           int (length (filter (\<lambda>p. read_text_file e p \<noteq> [] \<and> split_text e (read_text_file e p) p \<noteq> None) ?fs))"
    using fp[of e] assms by simp
  have d: "files_processed (fst (gather (e\<lparr>embed_api := service\<rparr>) ?fs)) = files_processed st"
  proof -
    have rt: "read_text_file (e\<lparr>embed_api := service\<rparr>) p = read_text_file e p" for p
      by (simp add: read_text_file_def)
    have sp: "split_text (e\<lparr>embed_api := service\<rparr>) x y = split_text e x y" for x y
      by (simp add: split_text_def split: option.splits)
    show ?thesis unfolding c fp rt sp by (rule refl)
  qed
  have e: "stats (fst (index_markdown_files e out directory file_types dry_run)) = Some st \<and>
            (snd (index_markdown_files e out directory file_types dry_run) = out \<or>
             snd (index_markdown_files e out directory file_types dry_run)
               = Content (map chunk_json all_processed_chunks) \<or>
             (\<exists>err. try_write e out (map chunk_json all_processed_chunks)
                = WriteRaises err (snd (index_markdown_files e out directory file_types dry_run))))"
    if "?fs \<noteq> []"
    using that assms by (auto simp: index_markdown_files_def split: write_outcome.splits)
  from a b c d e show ?thesis by blast
qed

theorem persisted_chunks_have_embeddings_witness:
  "gather demo_env (find_files demo_env ''docs'' [''md'']) = (demo_stats, demo_indexed) \<and>
   list_all has_embedding demo_indexed \<and>
   chunks_indexed demo_stats = int (length demo_indexed) \<and>
   files_processed (fst (gather (demo_env\<lparr>embed_api := (\<lambda>n texts. ApiRaises)\<rparr>)
      (find_files demo_env ''docs'' [''md'']))) = 1 \<and>
   stats (fst (index_markdown_files demo_env Missing ''docs'' [''md''] False)) = Some demo_stats"
proof -
  have h: "gather demo_env (find_files demo_env ''docs'' [''md'']) = (demo_stats, demo_indexed)"
    by (simp add: find_files_demo gather_demo)
  have ne: "find_files demo_env ''docs'' [''md''] \<noteq> []" by (simp add: find_files_demo)
  have v: "list_all has_embedding demo_indexed"
    by (simp add: demo_indexed_def demo_chunks_def has_embedding_def)
  from persisted_chunks_have_embeddings[OF h, of "\<lambda>n texts. ApiRaises" Missing False] ne h v
  show ?thesis by (simp add: demo_stats_def)
qed

text \<open>
  C4 (amended). A dry run leaves the output file as it was. When at least one file
  matched, it reports success with the statistics gathered.
\<close>

theorem dry_run_leaves_output_file:
  "snd (index_markdown_files e out directory file_types True) = out \<and>
   (find_files e directory file_types \<noteq> [] \<longrightarrow>
      status (fst (index_markdown_files e out directory file_types True)) = ''success'' \<and>
      stats (fst (index_markdown_files e out directory file_types True))
        = Some (fst (gather e (find_files e directory file_types))))"
  by (simp add: index_markdown_files_def Let_def split: prod.splits)

theorem dry_run_leaves_output_file_witness:
  "snd (index_markdown_files demo_env Missing ''docs'' [''md''] True) = Missing \<and>
   find_files demo_env ''docs'' [''md''] \<noteq> [] \<and>
   status (fst (index_markdown_files demo_env Missing ''docs'' [''md''] True)) = ''success'' \<and>
   stats (fst (index_markdown_files demo_env Missing ''docs'' [''md''] True)) = Some demo_stats"
  using dry_run_leaves_output_file[of demo_env Missing "''docs''" "[''md'']"]
  by (simp add: find_files_demo gather_demo)

text \<open>C4 as stated fails: a dry run over a directory without a matching file reports an
  error, with no statistics.\<close>

theorem dry_run_without_files_counterexample:
  "status (fst (index_markdown_files demo_env Missing ''nowhere'' [''md''] True)) \<noteq> ''success'' \<and>
   stats (fst (index_markdown_files demo_env Missing ''nowhere'' [''md''] True)) = None"
  by (simp add: index_markdown_files_def find_files_demo)

text \<open>
  C7. When no file matches, \<open>index_markdown_files\<close> returns a result with the status
  \<open>error\<close> and without statistics, and the process exits with code 1.
\<close>

theorem no_files_is_an_error:
  assumes "find_files e directory file_types = []"
  shows "index_markdown_files e out directory file_types dry_run =
           (\<lparr> status = ''error'', message = NoFilesFound file_types directory, stats = None \<rparr>, out) \<and>
         fst (main e out directory file_types dry_run) = 1"
  using assms by (simp add: index_markdown_files_def main_def)

theorem no_files_is_an_error_witness:
  "find_files demo_env ''nowhere'' [''md''] = [] \<and>
   index_markdown_files demo_env Missing ''nowhere'' [''md''] False =
     (\<lparr> status = ''error'', message = NoFilesFound [''md''] ''nowhere'', stats = None \<rparr>, Missing) \<and>
   fst (main demo_env Missing ''nowhere'' [''md''] False) = 1"
  using no_files_is_an_error[of demo_env "''nowhere''" "[''md'']" Missing False]
  by (simp add: find_files_demo)

text \<open>
  C8. In a run that is not a dry run and has at least one valid chunk, when writing the
  output file raises, \<open>index_markdown_files\<close> returns a result with the status \<open>error\<close>
  that carries the statistics of the run.
\<close>

theorem write_failure_keeps_stats:
  assumes "gather e (find_files e directory file_types) = (st, all_processed_chunks)"
    and "all_processed_chunks \<noteq> []"
    and "try_write e out (map chunk_json all_processed_chunks) = WriteRaises err out'"
  shows "index_markdown_files e out directory file_types False =
           (\<lparr> status = ''error'', message = WriteFailed err, stats = Some st \<rparr>, out') \<and>
         chunks_indexed st = int (length all_processed_chunks)"
proof -
  have "find_files e directory file_types \<noteq> []"
    using assms(1,2) gather_no_files[of e] by auto
  moreover have "chunks_indexed st = int (length all_processed_chunks)"
    using gather_parts[OF assms(1)] by (subst conjunct2[OF gather_parts[OF assms(1)]]) simp
  ultimately show ?thesis using assms by (simp add: index_markdown_files_def)
qed

theorem write_failure_keeps_stats_witness:
  "gather readonly_env (find_files readonly_env ''docs'' [''md'']) = (demo_stats, demo_indexed) \<and>
   demo_indexed \<noteq> [] \<and>
   try_write readonly_env Missing (map chunk_json demo_indexed) = WriteRaises ''Permission denied'' Missing \<and>
   index_markdown_files readonly_env Missing ''docs'' [''md''] False =
     (\<lparr> status = ''error'', message = WriteFailed ''Permission denied'', stats = Some demo_stats \<rparr>, Missing)"
proof -
  have h: "gather readonly_env (find_files readonly_env ''docs'' [''md'']) = (demo_stats, demo_indexed)"
    by (simp add: find_files_demo gather_readonly gather_demo)
  have ne: "demo_indexed \<noteq> []" by (simp add: demo_indexed_def demo_chunks_def)
  have w: "try_write readonly_env Missing (map chunk_json demo_indexed) = WriteRaises ''Permission denied'' Missing"
    by (simp add: readonly_env_def)
  from write_failure_keeps_stats[OF h ne w] h ne w show ?thesis by simp
qed

text \<open>
  C9. \<open>read_text_file\<close> returns the empty string for a file whose read raises and for a
  file that is empty. For a file with an empty read, the file loop adds one to
  \<open>files_failed\<close> and changes neither \<open>files_processed\<close> nor the chunks. Over the run,
  \<open>files_failed\<close> counts the files with an empty read (together with those whose split
  raised) and \<open>files_processed\<close> the others, and a run in which an unreadable file is
  replaced by a readable empty one returns the same result and leaves the same output
  file.
\<close>

theorem empty_read_is_a_failed_file:
  "(read_text_file e file_path = [] \<longleftrightarrow> open_read e file_path = None \<or> open_read e file_path = Some []) \<and>
   (read_text_file e file_path = [] \<longrightarrow>
      process_files e (file_path # rest) st0 all_chunks
        = process_files e rest (st0\<lparr>files_failed := files_failed st0 + 1\<rparr>) all_chunks) \<and>
   files_failed (fst (gather e fs)) =
     int (length (filter (\<lambda>p. read_text_file e p = [] \<or> split_text e (read_text_file e p) p = None) fs)) \<and>
   files_processed (fst (gather e fs)) =
     int (length (filter (\<lambda>p. read_text_file e p \<noteq> [] \<and> split_text e (read_text_file e p) p \<noteq> None) fs)) \<and>
   (open_read e file_path = None \<longrightarrow>
      index_markdown_files (e\<lparr>open_read := (open_read e)(file_path := Some [])\<rparr>) out directory file_types dry_run
        = index_markdown_files e out directory file_types dry_run)"
proof -
  have a: "read_text_file e file_path = [] \<longleftrightarrow> open_read e file_path = None \<or> open_read e file_path = Some []"
    by (simp add: read_text_file_def split: option.splits)
  have b: "process_files e (file_path # rest) st0 all_chunks
        = process_files e rest (st0\<lparr>files_failed := files_failed st0 + 1\<rparr>) all_chunks"
    if "read_text_file e file_path = []" using that by simp
  have c: "index_markdown_files (e\<lparr>open_read := (open_read e)(file_path := Some [])\<rparr>) out directory file_types dry_run
        = index_markdown_files e out directory file_types dry_run"
    if "open_read e file_path = None"
    by (rule index_markdown_files_cong) (simp_all add: read_text_file_def that)
  from a b c gather_counts[of e fs] show ?thesis by blast
qed

theorem empty_read_is_a_failed_file_witness:
  "open_read demo_env ''docs/gone.md'' = None \<and> open_read demo_env ''docs/empty.md'' = Some [] \<and>
   read_text_file demo_env ''docs/gone.md'' = [] \<and> read_text_file demo_env ''docs/empty.md'' = [] \<and>
   files_failed (fst (gather demo_env [''docs/a.md'', ''docs/empty.md'', ''docs/gone.md''])) = 2 \<and>
   files_processed (fst (gather demo_env [''docs/a.md'', ''docs/empty.md'', ''docs/gone.md''])) = 1 \<and>
   index_markdown_files (demo_env\<lparr>open_read := (open_read demo_env)(''docs/gone.md'' := Some [])\<rparr>)
       Missing ''docs'' [''md''] False
     = index_markdown_files demo_env Missing ''docs'' [''md''] False"
proof -
  have h: "open_read demo_env ''docs/gone.md'' = None" "open_read demo_env ''docs/empty.md'' = Some []"
    by (simp_all add: demo_env_def)
  from empty_read_is_a_failed_file[of demo_env "''docs/gone.md''" "[]" initial_stats "[]"
      "[''docs/a.md'', ''docs/empty.md'', ''docs/gone.md'']" Missing "''docs''" "[''md'']" False]
    h
  show ?thesis by (simp add: gather_demo demo_stats_def read_text_file_def)
qed

section \<open>Properties of the viewer\<close>

subsection \<open>The reduction\<close>



subsection \<open>Lists of optional values\<close>

lemma those_map_all_Some:
  "(\<And>x. x \<in> set xs \<Longrightarrow> f x = Some (g x)) \<Longrightarrow> those (map f xs) = Some (map g xs)"
  by (induction xs) simp_all



lemma filter_map_when:
  "(\<And>x. x \<in> set xs \<Longrightarrow> Q (F x) = P x) \<Longrightarrow> filter Q (map F xs) = map F (filter P xs)"
  by (induction xs) auto

subsection \<open>Rows\<close>

lemma map_of_row:
  "map_of (map (\<lambda>col. (col, g col)) cols) c = (if c \<in> set cols then Some (g c) else None)"
  by (induction cols) auto

lemma apply_row_Some:
  assumes "f (cell_of obj ''embedding'') = Some x"
  shows "apply_row f (map (\<lambda>col. (col, cell_of obj col)) cols) =
           Some (map (\<lambda>col. (col, if col = ''embedding'' then x else cell_of obj col)) cols)"
proof -
  have "those (map ((\<lambda>(col, x). if col = ''embedding'' then map_option (Pair col) (f x) else Some (col, x))
                    \<circ> (\<lambda>col. (col, cell_of obj col))) cols)
        = Some (map (\<lambda>col. (col, if col = ''embedding'' then x else cell_of obj col)) cols)"
    by (rule those_map_all_Some) (simp add: assms)
  then show ?thesis by (simp add: apply_row_def)
qed


lemma rows_DataFrame:
  "rows (DataFrame data) = map (\<lambda>obj. map (\<lambda>col. (col, cell_of obj col)) (columns (DataFrame data))) data"
  by (simp add: DataFrame_def Let_def)

lemma set_columns_DataFrame:
  "set (columns (DataFrame data)) = (\<Union>obj\<in>set data. fst ` set obj)"
  by (simp add: DataFrame_def Let_def first_occurrences_def)


lemma coerce_not_na:
  "coerce conv x = Some y \<Longrightarrow> \<not> isna y \<longleftrightarrow> json_list x \<noteq> None"
  by (cases "json_list x") (auto simp: coerce_def isna_def)

subsection \<open>The loader\<close>

lemma load_embeddings_returns:
  assumes col: "''embedding'' \<in> set (columns (DataFrame data))"
    and conv: "\<And>obj. obj \<in> set data \<Longrightarrow> coerce conv (cell_of obj ''embedding'') \<noteq> None"
    and kept: "filter (\<lambda>obj. json_list (cell_of obj ''embedding'') \<noteq> None) data \<noteq> []"
  shows "load_embeddings conv (Content data) =
           (if ''id'' \<notin> set (columns (DataFrame data)) \<or> ''file_id'' \<notin> set (columns (DataFrame data))
               \<or> ''content'' \<notin> set (columns (DataFrame data))
            then [WarningMissingColumns] else [],
            Some \<lparr> columns = columns (DataFrame data),
                   rows = map (\<lambda>obj. map (\<lambda>col. (col, if col = ''embedding''
                                                      then the (coerce conv (cell_of obj ''embedding''))
                                                      else cell_of obj col))
                                        (columns (DataFrame data)))
                              (filter (\<lambda>obj. json_list (cell_of obj ''embedding'') \<noteq> None) data) \<rparr>)"
proof -
  let ?cols = "columns (DataFrame data)"
  let ?F = "\<lambda>obj. map (\<lambda>col. (col, if col = ''embedding''
                                    then the (coerce conv (cell_of obj ''embedding''))
                                    else cell_of obj col)) ?cols"
  let ?P = "\<lambda>obj. json_list (cell_of obj ''embedding'') \<noteq> None"
  have "those (map (apply_row (coerce conv) \<circ> (\<lambda>obj. map (\<lambda>col. (col, cell_of obj col)) ?cols)) data)
          = Some (map ?F data)"
  proof (rule those_map_all_Some)
    fix obj assume "obj \<in> set data"
    from conv[OF this] obtain y where y: "coerce conv (cell_of obj ''embedding'') = Some y" by auto
    from apply_row_Some[of "coerce conv" obj y ?cols] y
    show "(apply_row (coerce conv) \<circ> (\<lambda>obj. map (\<lambda>col. (col, cell_of obj col)) ?cols)) obj = Some (?F obj)"
      by simp
  qed
  then have app: "those (map (apply_row (coerce conv)) (rows (DataFrame data))) = Some (map ?F data)"
    by (simp add: rows_DataFrame)
  have keep: "(case map_of (?F obj) ''embedding'' of Some x \<Rightarrow> \<not> isna x | None \<Rightarrow> True) = ?P obj"
    if "obj \<in> set data" for obj
  proof -
    from conv[OF that] obtain y where y: "coerce conv (cell_of obj ''embedding'') = Some y" by auto
    have "map_of (?F obj) ''embedding'' = Some y" using col y by (simp add: map_of_row)
    with coerce_not_na[OF y] show ?thesis by simp
  qed
  have "filter (\<lambda>row. case map_of row ''embedding'' of Some x \<Rightarrow> \<not> isna x | None \<Rightarrow> True) (map ?F data)
          = map ?F (filter ?P data)"
    by (rule filter_map_when) (rule keep)
  then have dn: "dropna (DataFrame data\<lparr>rows := map ?F data\<rparr>)
                  = \<lparr> columns = ?cols, rows = map ?F (filter ?P data) \<rparr>"
    by (simp add: dropna_def)
  have ne: "\<not> empty_df \<lparr> columns = ?cols, rows = map ?F (filter ?P data) \<rparr>"
    using kept col by (auto simp: empty_df_def)
  show ?thesis
    using col ne by (simp add: load_embeddings_def app dn Let_def)
qed



lemma those_py_float_floats: "those (map (py_float conv \<circ> JFloat) v) = Some v"
proof -
  have "those (map (py_float conv \<circ> JFloat) v) = Some (map (\<lambda>x. x) v)"
    by (rule those_map_all_Some) (simp add: py_float_def)
  then show ?thesis by simp
qed

lemma chunk_json_cells:
  "cell_of (chunk_json c) ''id'' = Val (JStr (chunk_id c))"
  "cell_of (chunk_json c) ''file_id'' = Val (JStr (file_id c))"
  "cell_of (chunk_json c) ''content'' = Val (JStr (content c))"
  "embedding c = Some v \<Longrightarrow> cell_of (chunk_json c) ''embedding'' = Val (JArr (map JFloat v))"
  by (simp_all add: cell_of_def chunk_json_def)

lemma chunk_json_keys:
  "''id'' \<in> fst ` set (chunk_json c)" "''file_id'' \<in> fst ` set (chunk_json c)"
  "''content'' \<in> fst ` set (chunk_json c)"
  "embedding c = Some v \<Longrightarrow> ''embedding'' \<in> fst ` set (chunk_json c)"
  by (simp_all add: chunk_json_def)

text \<open>
  C5. Let \<open>chunks\<close> be a list of chunks, not empty, each with an embedding that is not
  empty. From the output file that the indexer writes for it, \<open>load_embeddings\<close> returns a
  table, with no notice, that has one row for each chunk, in order; the row holds the
  chunk's \<open>id\<close>, \<open>file_id\<close> and \<open>content\<close>, and the chunk's embedding as a tuple of the same
  floats.
\<close>

theorem output_file_round_trip:
  assumes "chunks \<noteq> []" and "\<forall>c\<in>set chunks. has_embedding c"
  shows "\<exists>df. load_embeddings conv (Content (map chunk_json chunks)) = ([], Some df) \<and>
              length (rows df) = length chunks \<and>
              (\<forall>i<length chunks.
                 map_of (rows df ! i) ''id'' = Some (Val (JStr (chunk_id (chunks ! i)))) \<and>
                 map_of (rows df ! i) ''file_id'' = Some (Val (JStr (file_id (chunks ! i)))) \<and>
                 map_of (rows df ! i) ''content'' = Some (Val (JStr (content (chunks ! i)))) \<and>
                 (\<exists>v. embedding (chunks ! i) = Some v \<and>
                      map_of (rows df ! i) ''embedding'' = Some (Tuple v)))"
proof -
  let ?data = "map chunk_json chunks"
  let ?cols = "columns (DataFrame ?data)"
  let ?F = "\<lambda>obj. map (\<lambda>col. (col, if col = ''embedding''
                                    then the (coerce conv (cell_of obj ''embedding''))
                                    else cell_of obj col)) ?cols"
  let ?P = "\<lambda>obj. json_list (cell_of obj ''embedding'') \<noteq> None"
  have emb: "\<exists>v. embedding c = Some v" if "c \<in> set chunks" for c
    using assms(2) that by (auto simp: has_embedding_def split: option.splits)
  have co: "coerce conv (cell_of (chunk_json c) ''embedding'') = Some (Tuple v)"
    and jl: "json_list (cell_of (chunk_json c) ''embedding'') = Some (map JFloat v)"
    if "embedding c = Some v" for c v
    using that by (simp_all add: chunk_json_cells coerce_def json_list_def those_py_float_floats)
  from assms(1) obtain c0 where c0: "c0 \<in> set chunks" by (cases chunks) auto
  from emb[OF c0] obtain v0 where v0: "embedding c0 = Some v0" by auto
  have cols: "''id'' \<in> set ?cols" "''file_id'' \<in> set ?cols" "''content'' \<in> set ?cols"
    "''embedding'' \<in> set ?cols"
    unfolding set_columns_DataFrame using c0 chunk_json_keys[of c0] v0 by auto
  have all: "?P obj" "coerce conv (cell_of obj ''embedding'') \<noteq> None" if "obj \<in> set ?data" for obj
  proof -
    from that obtain c where c: "c \<in> set chunks" "obj = chunk_json c" by auto
    from emb[OF c(1)] obtain v where v: "embedding c = Some v" by auto
    show "?P obj" "coerce conv (cell_of obj ''embedding'') \<noteq> None"
      by (simp_all add: c(2) co[OF v] jl[OF v])
  qed
  then have keep: "filter ?P ?data = ?data" by simp
  have ne: "filter ?P ?data \<noteq> []" unfolding keep using assms(1) by simp
  have ret: "load_embeddings conv (Content ?data) =
               ([], Some \<lparr> columns = ?cols, rows = map ?F ?data \<rparr>)"
    using load_embeddings_returns[OF cols(4) all(2) ne] cols unfolding keep by simp
  have row: "map_of (map ?F ?data ! i) ''id'' = Some (Val (JStr (chunk_id (chunks ! i)))) \<and>
             map_of (map ?F ?data ! i) ''file_id'' = Some (Val (JStr (file_id (chunks ! i)))) \<and>
             map_of (map ?F ?data ! i) ''content'' = Some (Val (JStr (content (chunks ! i)))) \<and>
             (\<exists>v. embedding (chunks ! i) = Some v \<and>
                  map_of (map ?F ?data ! i) ''embedding'' = Some (Tuple v))"
    if i: "i < length chunks" for i
  proof -
    from emb[of "chunks ! i"] i obtain v where v: "embedding (chunks ! i) = Some v" by auto
    have nth: "map ?F ?data ! i = ?F (chunk_json (chunks ! i))" using i by simp
    show ?thesis unfolding nth using cols v co[OF v]
      by (simp add: map_of_row chunk_json_cells)
  qed
  show ?thesis
    by (rule exI[of _ "\<lparr> columns = ?cols, rows = map ?F ?data \<rparr>"]) (use ret row in simp)
qed

theorem output_file_round_trip_witness:
  "demo_indexed \<noteq> [] \<and> list_all has_embedding demo_indexed \<and>
   snd (index_markdown_files demo_env Missing ''docs'' [''md''] False)
     = Content (map chunk_json demo_indexed) \<and>
   fst (load_embeddings (\<lambda>x. None) (Content (map chunk_json demo_indexed))) = [] \<and>
   map (\<lambda>row. map_of row ''id'')
       (rows (the (snd (load_embeddings (\<lambda>x. None) (Content (map chunk_json demo_indexed))))))
     = [Some (Val (JStr ''docs/a.md_0-6'')), Some (Val (JStr ''docs/a.md_400-406''))] \<and>
   map (\<lambda>row. map_of row ''embedding'')
       (rows (the (snd (load_embeddings (\<lambda>x. None) (Content (map chunk_json demo_indexed))))))
     = [Some (Tuple [1/2, 1/4]), Some (Tuple [1/2, 1/4])]"
proof -
  have h1: "demo_indexed \<noteq> []" and v: "list_all has_embedding demo_indexed"
    and len: "length demo_indexed = 2"
    by (simp_all add: demo_indexed_def demo_chunks_def has_embedding_def)
  from v have h2: "\<forall>c\<in>set demo_indexed. has_embedding c" by (simp add: list_all_iff)
  have w: "snd (index_markdown_files demo_env Missing ''docs'' [''md''] False)
     = Content (map chunk_json demo_indexed)"
    using h1 by (simp add: index_markdown_files_def find_files_demo gather_demo) (simp add: demo_env_def)
  have c: "chunk_id (demo_indexed ! 0) = ''docs/a.md_0-6''" "chunk_id (demo_indexed ! 1) = ''docs/a.md_400-406''"
    "embedding (demo_indexed ! 0) = Some [1/2, 1/4]" "embedding (demo_indexed ! 1) = Some [1/2, 1/4]"
    by (simp_all add: demo_indexed_def demo_chunks_def)
  from output_file_round_trip[OF h1 h2, of "\<lambda>x. None"]
  obtain df where ld: "load_embeddings (\<lambda>x. None) (Content (map chunk_json demo_indexed)) = ([], Some df)"
    and l: "length (rows df) = 2"
    and i0: "map_of (rows df ! 0) ''id'' = Some (Val (JStr (chunk_id (demo_indexed ! 0))))"
    and i1: "map_of (rows df ! 1) ''id'' = Some (Val (JStr (chunk_id (demo_indexed ! 1))))"
    and e0: "\<exists>v. embedding (demo_indexed ! 0) = Some v \<and> map_of (rows df ! 0) ''embedding'' = Some (Tuple v)"
    and e1: "\<exists>v. embedding (demo_indexed ! 1) = Some v \<and> map_of (rows df ! 1) ''embedding'' = Some (Tuple v)"
    unfolding len by auto
  from l obtain a b where ab: "rows df = [a, b]"
    by (cases "rows df"; cases "tl (rows df)"; cases "tl (tl (rows df))") auto
  from h1 v w ld ab i0 i1 e0 e1 c show ?thesis by simp
qed




end
